theory Spec2Isabelle
  imports Complex_Main
begin

section \<open>Text: whitespace, \<open>str.split\<close>, \<open>str.strip\<close>, \<open>' '.join\<close>\<close>

text \<open>
  A Python \<open>str\<close> is a sequence of code points. It is modelled as a \<open>string\<close>, each
  \<open>char\<close> standing for the code point of its value (0 to 255), so \<open>length\<close> counts
  what Python's \<open>len\<close> counts; code points above 255 are outside the model.
  \<open>isspace\<close> is \<open>str.isspace\<close> on one character of that range: TAB, LF, VT, FF, CR, the
  four separators FS/GS/RS/US, SPACE, NEL and NBSP.
\<close>

definition isspace :: "char \<Rightarrow> bool" where
  "isspace c = List.member [9, 10, 11, 12, 13, 28, 29, 30, 31, 32, 133, 160 :: nat] (of_char c)"

text \<open>
  \<open>text.split()\<close> with no argument: the maximal runs of non-whitespace characters, in
  order. \<open>split_acc cur cs\<close> scans \<open>cs\<close> with the word \<open>cur\<close> read so far.
\<close>

fun split_acc :: "string \<Rightarrow> string \<Rightarrow> string list" where
  "split_acc cur [] = (if cur = [] then [] else [cur])"
| "split_acc cur (c # cs) =
     (if isspace c then (if cur = [] then split_acc [] cs else cur # split_acc [] cs)
      else split_acc (cur @ [c]) cs)"

definition split_ws :: "string \<Rightarrow> string list" where
  "split_ws text = split_acc [] text"

text \<open>\<open>text.strip()\<close>: leading and trailing whitespace removed.\<close>

definition strip :: "string \<Rightarrow> string" where
  "strip text = rev (dropWhile isspace (rev (dropWhile isspace text)))"

text \<open>\<open>' '.join(ws)\<close>.\<close>

fun join_sp :: "string list \<Rightarrow> string" where
  "join_sp [] = []"
| "join_sp [w] = w"
| "join_sp (w # v # ws) = w @ CHR '' '' # join_sp (v # ws)"

section \<open>The text wrapper (\<open>ReviewCardGenerator._wrap_text\<close>)\<close>

text \<open>
  A font is used by the wrapper only through \<open>font.getbbox(text)[2]\<close>, the right edge of
  the bounding box of a rendered string: a font is modelled as that measure.
\<close>

type_synonym font = "string \<Rightarrow> int"

text \<open>
  The \<open>for word in words\<close> loop, with its two variables \<open>lines\<close> and \<open>current_line\<close>
  passed as state.
\<close>

fun wrap_loop :: "font \<Rightarrow> int \<Rightarrow> string list \<Rightarrow> string list \<Rightarrow> string list
    \<Rightarrow> string list \<times> string list" where
  "wrap_loop font max_width [] lines current_line = (lines, current_line)"
| "wrap_loop font max_width (word # words) lines current_line =
     (let test_line = join_sp (current_line @ [word]) in
      if font test_line \<le> max_width
      then wrap_loop font max_width words lines (current_line @ [word])
      else wrap_loop font max_width words
             (if current_line \<noteq> [] then lines @ [join_sp current_line] else lines) [word])"

definition wrap_text :: "string \<Rightarrow> font \<Rightarrow> int \<Rightarrow> string list" where
  "wrap_text text font max_width =
     (case wrap_loop font max_width (split_ws text) [] [] of
        (lines, current_line) \<Rightarrow>
          if current_line \<noteq> [] then lines @ [join_sp current_line] else lines)"

section \<open>Numbers: Python floats, \<open>int()\<close>, number formatting\<close>

text \<open>
  A Python \<open>float\<close>. A finite float is the rational number it denotes (an \<open>int\<close> passed
  as a score is \<open>Fin\<close> of it as well); comparisons, \<open>int()\<close> and the correctly rounded
  \<open>.1f\<close> format of CPython are exact functions of that rational. \<open>-0.0\<close> compares and
  truncates like \<open>0\<close>.
\<close>

datatype pyfloat = Fin rat | Nan | PosInf | NegInf

datatype py_error =
    ValueError string
  | OverflowError
  | ZeroDivisionError
  | FileNotFoundError
  | OSError

text \<open>\<open>a <= b\<close> on floats: every comparison with NaN is false.\<close>

fun py_le :: "pyfloat \<Rightarrow> pyfloat \<Rightarrow> bool" where
  "py_le Nan b = False"
| "py_le a Nan = False"
| "py_le (Fin a) (Fin b) = (a \<le> b)"
| "py_le NegInf b = True"
| "py_le a PosInf = True"
| "py_le a b = False"

text \<open>\<open>int(x)\<close> of a finite value: truncation towards zero.\<close>

definition py_int :: "rat \<Rightarrow> int" where
  "py_int q = (if 0 \<le> q then \<lfloor>q\<rfloor> else \<lceil>q\<rceil>)"

definition digit_char :: "nat \<Rightarrow> char" where
  "digit_char d = ''0123456789'' ! d"

text \<open>The decimal digits of a natural number, as \<open>str(n)\<close> writes them.\<close>

function show_nat :: "nat \<Rightarrow> string" where
  "show_nat n = (if n < 10 then [digit_char n] else show_nat (n div 10) @ [digit_char (n mod 10)])"
  by pat_completeness auto
termination
  by (relation "measure id") auto

declare show_nat.simps [simp del]

definition show_int :: "int \<Rightarrow> string" where
  "show_int i = (if i < 0 then CHR ''-'' # show_nat (nat (- i)) else show_nat (nat i))"

text \<open>Rounding to the nearest integer, a tie going to the even neighbour.\<close>

definition round_half_even :: "rat \<Rightarrow> int" where
  "round_half_even x =
     (let f = \<lfloor>x\<rfloor>; d = x - of_int f in
      if d < 1 / 2 then f
      else if 1 / 2 < d then f + 1
      else if even f then f else f + 1)"

text \<open>
  \<open>f"{x:.1f}"\<close> for a finite \<open>x\<close>: the value rounded to tenths (correctly rounded,
  half to even), written with a sign, its integer digits, a point and one digit.
\<close>

definition fmt_1f :: "rat \<Rightarrow> string" where
  "fmt_1f x =
     (let n = nat (round_half_even (\<bar>x\<bar> * 10)) in
      (if x < 0 then [CHR ''-''] else []) @ show_nat (n div 10) @ [CHR ''.'', digit_char (n mod 10)])"

section \<open>Data model\<close>

datatype platform = NONE | BACKLOGGD | LETTERBOXD

datatype content_type = GAME | MOVIE

type_synonym rgb = "int \<times> int \<times> int"
type_synonym rgba = "int \<times> int \<times> int \<times> int"

text \<open>A decoded image, seen through its \<open>width\<close> and \<open>height\<close>; pixels are not modelled.\<close>

record image =
  im_width :: int
  im_height :: int

record platform_branding =
  name :: string
  logo_path :: "string option"
  accent_color :: rgb
  username :: string

text \<open>\<open>logo_path or "assets/logos/..."\<close>: the default replaces \<open>None\<close> and the empty string.\<close>

definition or_default :: "string option \<Rightarrow> string \<Rightarrow> string" where
  "or_default p d = (case p of None \<Rightarrow> d | Some q \<Rightarrow> if q = [] then d else q)"

definition backloggd :: "string \<Rightarrow> string option \<Rightarrow> platform_branding" where
  "backloggd user lp =
     \<lparr>name = ''Backloggd'',
      logo_path = Some (or_default lp ''assets/logos/backloggd_logo.png''),
      accent_color = (139, 92, 246),
      username = user\<rparr>"

definition letterboxd :: "string \<Rightarrow> string option \<Rightarrow> platform_branding" where
  "letterboxd user lp =
     \<lparr>name = ''Letterboxd'',
      logo_path = Some (or_default lp ''assets/logos/letterboxd_logo.png''),
      accent_color = (255, 128, 0),
      username = user\<rparr>"

text \<open>
  \<open>cover_image: Optional[Union[str, Path, Image.Image]]\<close>. A \<open>Path\<close> is carried as the
  string \<open>str(path)\<close>.
\<close>

datatype cover_ref = Str string | PathRef string | Img image

record review_data =
  title :: string
  score :: pyfloat
  review_text :: string
  content_type :: content_type
  cover_image :: "cover_ref option"
  platform :: platform
  platform_username :: string

text \<open>
  \<open>ReviewData.validate\<close>: the three checks in the source's order, each raising
  \<open>ValueError\<close>. \<open>not s or not s.strip()\<close> is \<open>s = [] \<or> strip s = []\<close>.
\<close>

definition validate :: "review_data \<Rightarrow> py_error + bool" where
  "validate r =
     (if title r = [] \<or> strip (title r) = [] then Inl (ValueError ''Title cannot be empty'')
      else if \<not> (py_le (Fin 0) (score r) \<and> py_le (score r) (Fin 10))
        then Inl (ValueError ''Score must be between 0 and 10'')
      else if review_text r = [] \<or> strip (review_text r) = []
        then Inl (ValueError ''Review text cannot be empty'')
      else Inr True)"

text \<open>
  \<open>CardStyle\<close>. The four fonts that \<open>_load_fonts\<close> leaves in the style are fields; the
  font paths that only select them are not.
\<close>

record card_style =
  width :: int
  height :: int
  background_color :: rgba
  primary_color :: rgb
  secondary_color :: rgb
  style_accent_color :: rgb
  title_font_size :: int
  score_font_size :: int
  review_font_size :: int
  platform_font_size :: int
  padding :: int
  cover_width :: int
  corner_radius :: int
  title_font :: font
  score_font :: font
  review_font :: font
  platform_font :: font

section \<open>The outside world: files, network, image decoding\<close>

text \<open>
  What the code asks of the file system, the network and the image decoder is a
  parameter of the model:
  \<^item> \<open>path_exists p\<close> is \<open>Path(p).exists()\<close>;
  \<^item> \<open>image_open p\<close> is \<open>Image.open(p).convert("RGBA")\<close>, \<open>None\<close> when it raises;
  \<^item> \<open>fetch_url u\<close> is the outcome of \<open>requests.get\<close>, \<open>raise_for_status\<close> and the
    decoding of the response.
\<close>

datatype url_result = RequestException | Undecodable | Decoded image

record env =
  path_exists :: "string \<Rightarrow> bool"
  image_open :: "string \<Rightarrow> image option"
  fetch_url :: "string \<Rightarrow> url_result"

definition load_from_url :: "env \<Rightarrow> string \<Rightarrow> py_error + image" where
  "load_from_url e url =
     (case fetch_url e url of
        RequestException \<Rightarrow> Inl (ValueError ''Failed to load image from URL'')
      | Undecodable \<Rightarrow> Inl OSError
      | Decoded im \<Rightarrow> Inr im)"

definition load_from_file :: "env \<Rightarrow> string \<Rightarrow> py_error + image" where
  "load_from_file e path =
     (if \<not> path_exists e path then Inl FileNotFoundError
      else case image_open e path of None \<Rightarrow> Inl OSError | Some im \<Rightarrow> Inr im)"

definition startswith :: "string \<Rightarrow> string \<Rightarrow> bool" where
  "startswith s p = (take (length p) s = p)"

text \<open>\<open>ImageLoader.load\<close>.\<close>

definition load :: "env \<Rightarrow> cover_ref \<Rightarrow> py_error + image" where
  "load e source =
     (case source of
        Img im \<Rightarrow> Inr im
      | Str s \<Rightarrow>
          if startswith s ''http://'' \<or> startswith s ''https://'' then load_from_url e s
          else load_from_file e s
      | PathRef s \<Rightarrow>
          if startswith s ''http://'' \<or> startswith s ''https://'' then load_from_url e s
          else load_from_file e s)"

text \<open>The truth value of \<open>review.cover_image\<close> in \<open>if review.cover_image:\<close>.\<close>

fun truthy :: "cover_ref option \<Rightarrow> bool" where
  "truthy None = False"
| "truthy (Some (Str s)) = (s \<noteq> [])"
| "truthy (Some (PathRef s)) = True"
| "truthy (Some (Img im)) = True"

section \<open>The canvas\<close>

text \<open>
  The result of \<open>_create_cover_with_rounded_corners\<close>: an RGBA image of size
  \<open>tile_width\<close> by \<open>tile_height\<close> holding the source resized to \<open>resized\<close>, cropped to
  \<open>crop_box = (left, top, right, bottom)\<close> and masked by a rounded rectangle.
\<close>

record cover_tile =
  tile_width :: int
  tile_height :: int
  tile_source :: image
  resized :: "int \<times> int"
  crop_box :: "int \<times> int \<times> int \<times> int"
  mask_radius :: int

text \<open>
  Pillow's drawing calls are recorded, not executed: a canvas is the size it was created
  with and the calls made on it, in order. What Pillow does with the arguments of a call
  lies outside the model.
  \<^item> \<open>RoundedRectangle p0 p1 radius fill\<close> is \<open>draw.rounded_rectangle([p0, p1], radius, fill)\<close>;
  \<^item> \<open>DrawText xy text font fill anchor\<close> is \<open>draw.text(xy, text, font, fill, anchor)\<close>;
  \<^item> \<open>PasteCover tile xy\<close> and \<open>PasteLogo logo xy\<close> are \<open>image.paste(im, xy, im)\<close>;
  \<^item> \<open>Ellipse p0 p1 fill\<close> is \<open>draw.ellipse([p0, p1], fill)\<close>.
\<close>

datatype draw_op =
    RoundedRectangle "int \<times> int" "int \<times> int" int rgba
  | DrawText "int \<times> int" string font rgb "string option"
  | PasteCover cover_tile "int \<times> int"
  | PasteLogo image "int \<times> int"
  | Ellipse "int \<times> int" "int \<times> int" rgb

record canvas =
  canvas_width :: int
  canvas_height :: int
  ops :: "draw_op list"

definition draw :: "canvas \<Rightarrow> draw_op \<Rightarrow> canvas" where
  "draw canv op = canv\<lparr>ops := ops canv @ [op]\<rparr>"

text \<open>\<open>_create_rounded_rectangle\<close>: a transparent image with one rounded rectangle on it.\<close>

definition create_rounded_rectangle :: "int \<times> int \<Rightarrow> int \<Rightarrow> rgba \<Rightarrow> canvas" where
  "create_rounded_rectangle sz radius fill =
     draw \<lparr>canvas_width = fst sz, canvas_height = snd sz, ops = []\<rparr>
       (RoundedRectangle (0, 0) (fst sz - 1, snd sz - 1) radius fill)"

section \<open>The cover normalizer (\<open>_create_cover_with_rounded_corners\<close>)\<close>

text \<open>
  \<open>a / b\<close> on two \<open>int\<close>s is the quotient as a rational (the float the code computes is
  that quotient rounded to 53 bits), and raises \<open>ZeroDivisionError\<close> when \<open>b\<close> is zero,
  as does the division by a zero \<open>cover_ratio\<close>.
\<close>

definition create_cover_with_rounded_corners ::
    "image \<Rightarrow> int \<Rightarrow> int \<Rightarrow> int \<Rightarrow> py_error + cover_tile" where
  "create_cover_with_rounded_corners cover target_width target_height radius =
     (if im_height cover = 0 then Inl ZeroDivisionError
      else if target_height = 0 then Inl ZeroDivisionError
      else
        let cover_ratio = (of_int (im_width cover) / of_int (im_height cover) :: rat);
            target_ratio = (of_int target_width / of_int target_height :: rat)
        in
        if target_ratio < cover_ratio then
          (let new_height = target_height;
               new_width = py_int (of_int new_height * cover_ratio);
               left = (new_width - target_width) div 2;
               top = (new_height - target_height) div 2
           in Inr \<lparr>tile_width = target_width, tile_height = target_height,
                   tile_source = cover, resized = (new_width, new_height),
                   crop_box = (left, top, left + target_width, top + target_height),
                   mask_radius = radius\<rparr>)
        else if cover_ratio = 0 then Inl ZeroDivisionError
        else
          (let new_width = target_width;
               new_height = py_int (of_int new_width / cover_ratio);
               left = (new_width - target_width) div 2;
               top = (new_height - target_height) div 2
           in Inr \<lparr>tile_width = target_width, tile_height = target_height,
                   tile_source = cover, resized = (new_width, new_height),
                   crop_box = (left, top, left + target_width, top + target_height),
                   mask_radius = radius\<rparr>))"

section \<open>The score classifier (\<open>_format_score\<close>, \<open>_get_score_color\<close>)\<close>

text \<open>
  \<open>_format_score\<close>. \<open>int(score)\<close> is evaluated first: it raises \<open>ValueError\<close> on NaN and
  \<open>OverflowError\<close> on an infinity.
\<close>

fun format_score :: "pyfloat \<Rightarrow> py_error + string" where
  "format_score (Fin s) =
     (if s = of_int (py_int s) then Inr (show_int (py_int s) @ ''/10'')
      else Inr (fmt_1f s @ ''/10''))"
| "format_score Nan = Inl (ValueError ''cannot convert float NaN to integer'')"
| "format_score PosInf = Inl OverflowError"
| "format_score NegInf = Inl OverflowError"

definition get_score_color :: "pyfloat \<Rightarrow> rgb" where
  "get_score_color s =
     (if py_le (Fin 8) s then (34, 197, 94)
      else if py_le (Fin 6) s then (234, 179, 8)
      else if py_le (Fin 4) s then (249, 115, 22)
      else (239, 68, 68))"

section \<open>The platform badge (\<open>_draw_platform_branding\<close>)\<close>

text \<open>
  The \<open>try\<close> block pastes the logo and advances \<open>x\<close> when the logo file exists and opens;
  its \<open>except\<close> branch, taken when opening raises, draws the circle and advances \<open>x\<close>.
  When the file does not exist nothing raises: neither branch runs.
\<close>

definition draw_platform_branding ::
    "env \<Rightarrow> card_style \<Rightarrow> canvas \<Rightarrow> platform \<Rightarrow> string \<Rightarrow> int \<times> int \<Rightarrow> canvas" where
  "draw_platform_branding e style img pf user position =
     (if pf = NONE then img
      else
        let branding =
              (case pf of
                 BACKLOGGD \<Rightarrow> Some (backloggd user None)
               | LETTERBOXD \<Rightarrow> Some (letterboxd user None)
               | NONE \<Rightarrow> None)
        in
        case branding of
          None \<Rightarrow> img
        | Some b \<Rightarrow>
            let x = fst position; y = snd position; logo_size = 32;
                (img', x') =
                  (case logo_path b of
                     None \<Rightarrow> (img, x)
                   | Some p \<Rightarrow>
                       if p \<noteq> [] \<and> path_exists e p then
                         (case image_open e p of
                            Some logo \<Rightarrow>
                              (draw img
                                 (PasteLogo (logo\<lparr>im_width := logo_size, im_height := logo_size\<rparr>) (x, y)),
                               x + (logo_size + 10))
                          | None \<Rightarrow>
                              (draw img (Ellipse (x, y) (x + logo_size, y + logo_size) (accent_color b)),
                               x + (logo_size + 10)))
                       else (img, x));
                platform_text = name b @ (if user \<noteq> [] then '' @'' @ user else [])
            in draw img'
                 (DrawText (x', y + logo_size div 2) platform_text (platform_font style)
                    (secondary_color style) (Some ''lm'')))"

section \<open>The compositor (\<open>ReviewCardGenerator.generate\<close>)\<close>

text \<open>
  The layout variables of \<open>generate\<close>. \<open>cover_width * 1.5\<close> is exact in floating point for
  any width below \<open>2 ^ 52\<close>.
\<close>

definition cover_height :: "card_style \<Rightarrow> int" where
  "cover_height style = py_int (of_int (cover_width style) * (3 / 2))"

definition text_x :: "card_style \<Rightarrow> int" where
  "text_x style = padding style + cover_width style + padding style"

definition text_width :: "card_style \<Rightarrow> int" where
  "text_width style = width style - text_x style - padding style"

text \<open>The body of the \<open>try\<close> up to the paste: load the cover, normalize it.\<close>

definition load_cover :: "env \<Rightarrow> card_style \<Rightarrow> cover_ref \<Rightarrow> py_error + cover_tile" where
  "load_cover e style source =
     (case load e source of
        Inl err \<Rightarrow> Inl err
      | Inr cover \<Rightarrow>
          create_cover_with_rounded_corners cover (cover_width style) (cover_height style) 15)"

text \<open>The placeholder of the \<open>except\<close> branch.\<close>

definition placeholder_on_failure :: "card_style \<Rightarrow> canvas \<Rightarrow> canvas" where
  "placeholder_on_failure style canv =
     (let cover_x = padding style; cover_y = padding style;
          placeholder_color = (40, 40, 50, 255) in
      draw
        (draw canv
           (RoundedRectangle (cover_x, cover_y)
              (cover_x + cover_width style, cover_y + cover_height style) 15 placeholder_color))
        (DrawText (cover_x + cover_width style div 2, cover_y + cover_height style div 2)
           ''No Cover'' (review_font style) (secondary_color style) (Some ''mm'')))"

text \<open>The placeholder of the \<open>else\<close> branch (no cover given).\<close>

definition placeholder_no_cover :: "card_style \<Rightarrow> canvas \<Rightarrow> canvas" where
  "placeholder_no_cover style canv =
     (let cover_x = padding style; cover_y = padding style;
          placeholder_color = (40, 40, 50, 255) in
      draw
        (draw canv
           (RoundedRectangle (cover_x, cover_y)
              (cover_x + cover_width style, cover_y + cover_height style) 15 placeholder_color))
        (DrawText (cover_x + cover_width style div 2, cover_y + cover_height style div 2)
           ''No Cover'' (review_font style) (secondary_color style) (Some ''mm'')))"

definition draw_cover :: "env \<Rightarrow> card_style \<Rightarrow> review_data \<Rightarrow> canvas \<Rightarrow> canvas" where
  "draw_cover e style review canv =
     (case cover_image review of
        None \<Rightarrow> placeholder_no_cover style canv
      | Some source \<Rightarrow>
          if truthy (Some source) then
            (case load_cover e style source of
               Inr cover_rounded \<Rightarrow> draw canv (PasteCover cover_rounded (padding style, padding style))
             | Inl err \<Rightarrow> placeholder_on_failure style canv)
          else placeholder_no_cover style canv)"

text \<open>The title loop over \<open>title_lines[:2]\<close>, with \<open>title_y\<close> as state.\<close>

fun draw_title_lines :: "card_style \<Rightarrow> string list \<Rightarrow> canvas \<times> int \<Rightarrow> canvas \<times> int" where
  "draw_title_lines style [] (canv, title_y) = (canv, title_y)"
| "draw_title_lines style (line # rest) (canv, title_y) =
     draw_title_lines style rest
       (draw canv (DrawText (text_x style, title_y) line (title_font style) (primary_color style) None),
        title_y + (title_font_size style + 5))"

definition draw_title :: "card_style \<Rightarrow> review_data \<Rightarrow> canvas \<Rightarrow> canvas \<times> int" where
  "draw_title style review canv =
     (let title_lines = wrap_text (title review) (title_font style) (text_width style) in
      draw_title_lines style (take 2 title_lines) (canv, padding style))"

definition draw_score ::
    "card_style \<Rightarrow> review_data \<Rightarrow> canvas \<times> int \<Rightarrow> py_error + canvas \<times> int" where
  "draw_score style review st =
     (let score_y = snd st + 15 in
      case format_score (score review) of
        Inl err \<Rightarrow> Inl err
      | Inr score_text \<Rightarrow>
          Inr (draw (fst st)
                 (DrawText (text_x style, score_y) score_text (score_font style)
                    (get_score_color (score review)) None),
               score_y))"

definition max_review_lines :: nat where
  "max_review_lines = 8"

text \<open>
  The loop \<open>for i, line in enumerate(review_lines[:max_review_lines])\<close>: \<open>n_lines\<close> is
  \<open>len(review_lines)\<close>, \<open>i\<close> the index of the line at the head of the list.
\<close>

fun draw_review_lines ::
    "card_style \<Rightarrow> nat \<Rightarrow> nat \<Rightarrow> string list \<Rightarrow> canvas \<times> int \<Rightarrow> canvas \<times> int" where
  "draw_review_lines style n_lines i [] (canv, review_y) = (canv, review_y)"
| "draw_review_lines style n_lines i (line # rest) (canv, review_y) =
     (let line' =
            (if i = max_review_lines - 1 \<and> max_review_lines < n_lines
             then (if 3 < length line then take (length line - 3) line @ ''...'' else ''...'')
             else line)
      in draw_review_lines style n_lines (Suc i) rest
           (draw canv
              (DrawText (text_x style, review_y) line' (review_font style) (secondary_color style) None),
            review_y + (review_font_size style + 8)))"

definition draw_review_text :: "card_style \<Rightarrow> review_data \<Rightarrow> canvas \<times> int \<Rightarrow> canvas \<times> int" where
  "draw_review_text style review st =
     (let review_y = snd st + score_font_size style + 20;
          review_lines = wrap_text (review_text review) (review_font style) (text_width style)
      in draw_review_lines style (length review_lines) 0 (take max_review_lines review_lines)
           (fst st, review_y))"

definition draw_platform :: "env \<Rightarrow> card_style \<Rightarrow> review_data \<Rightarrow> canvas \<Rightarrow> canvas" where
  "draw_platform e style review canv =
     (if platform review \<noteq> NONE then
        draw_platform_branding e style canv (platform review) (platform_username review)
          (padding style, height style - padding style - 32)
      else canv)"

text \<open>
  \<open>generate\<close> with \<open>output_path = None\<close>: validation, then the drawing steps in their
  fixed order. Saving the card to a path is the caller's output and is not modelled.
\<close>

definition generate :: "env \<Rightarrow> card_style \<Rightarrow> review_data \<Rightarrow> py_error + canvas" where
  "generate e style review =
     (case validate review of
        Inl err \<Rightarrow> Inl err
      | Inr ok \<Rightarrow>
          (let canv = create_rounded_rectangle (width style, height style) (corner_radius style)
                        (background_color style);
               canv' = draw_cover e style review canv;
               titled = draw_title style review canv'
           in (case draw_score style review titled of
                 Inl err \<Rightarrow> Inl err
               | Inr scored \<Rightarrow>
                   Inr (draw_platform e style review
                          (fst (draw_review_text style review scored))))))"

section \<open>Predicates used to state the properties\<close>

text \<open>A text with no character other than whitespace (the empty text included).\<close>

definition blank :: "string \<Rightarrow> bool" where
  "blank t = list_all isspace t"

text \<open>A word: a non-empty text without whitespace.\<close>

definition is_word :: "string \<Rightarrow> bool" where
  "is_word w = (w \<noteq> [] \<and> list_all (\<lambda>c. \<not> isspace c) w)"

text \<open>A group of words fits when its line measures at most the width, or it is one word.\<close>

definition fits :: "font \<Rightarrow> int \<Rightarrow> string list \<Rightarrow> bool" where
  "fits font max_width g = (font (join_sp g) \<le> max_width \<or> length g = 1)"

text \<open>A score in \<open>[0, 10]\<close>: a finite float between the two bounds.\<close>

fun score_in_range :: "pyfloat \<Rightarrow> bool" where
  "score_in_range (Fin s) = (0 \<le> s \<and> s \<le> 10)"
| "score_in_range Nan = False"
| "score_in_range PosInf = False"
| "score_in_range NegInf = False"

text \<open>The four colour buckets of the specification and the colour of each.\<close>

datatype bucket = Good | Okay | Poor | Bad

fun bucket_color :: "bucket \<Rightarrow> rgb" where
  "bucket_color Good = (34, 197, 94)"
| "bucket_color Okay = (234, 179, 8)"
| "bucket_color Poor = (249, 115, 22)"
| "bucket_color Bad = (239, 68, 68)"

text \<open>
  The review lines as the specification words them: when more than eight lines were
  produced, the first seven and the eighth with its last three characters replaced by
  \<open>...\<close> (or \<open>...\<close> alone when it has three characters or fewer); otherwise all lines.
\<close>

definition ellipsized :: "string \<Rightarrow> string" where
  "ellipsized l = (if 3 < length l then take (length l - 3) l @ ''...'' else ''...'')"

definition rendered_lines :: "string list \<Rightarrow> string list" where
  "rendered_lines lines = (if 8 < length lines then take 7 lines @ [ellipsized (lines ! 7)] else lines)"

text \<open>The card as \<open>generate\<close> creates it, before anything is drawn on it.\<close>

definition base_card :: "card_style \<Rightarrow> canvas" where
  "base_card style =
     create_rounded_rectangle (width style, height style) (corner_radius style)
       (background_color style)"

text \<open>A canvas with no drawing call on it.\<close>

definition empty_canvas :: canvas where
  "empty_canvas = \<lparr>canvas_width = 0, canvas_height = 0, ops = []\<rparr>"

text \<open>A valid review: title and review text not blank, score in range.\<close>

definition valid_review :: "review_data \<Rightarrow> bool" where
  "valid_review r = (\<not> blank (title r) \<and> \<not> blank (review_text r) \<and> score_in_range (score r))"

text \<open>A fixed-pitch font of ten pixels a character, for the examples.\<close>

definition mono10 :: font where
  "mono10 t = 10 * int (length t)"

text \<open>Fixed-pitch fonts of a given advance, for the examples.\<close>

definition fixed_pitch :: "int \<Rightarrow> font" where
  "fixed_pitch w t = w * int (length t)"

text \<open>\<open>CardStyle()\<close> with its default arguments, over fixed-pitch fonts.\<close>

definition default_style :: card_style where
  "default_style =
     \<lparr>width = 1200, height = 675, background_color = (18, 18, 24, 255),
      primary_color = (255, 255, 255), secondary_color = (156, 163, 175),
      style_accent_color = (236, 72, 153), title_font_size = 48, score_font_size = 72,
      review_font_size = 24, platform_font_size = 20, padding = 40, cover_width = 300,
      corner_radius = 20, title_font = fixed_pitch 24, score_font = fixed_pitch 36,
      review_font = fixed_pitch 12, platform_font = fixed_pitch 10\<rparr>"

text \<open>A world with no file and no network.\<close>

definition offline_env :: env where
  "offline_env =
     \<lparr>path_exists = (\<lambda>p. False), image_open = (\<lambda>p. None),
      fetch_url = (\<lambda>u. RequestException)\<rparr>"

definition sample_review :: review_data where
  "sample_review =
     \<lparr>title = ''Elden Ring'', score = Fin (19 / 2),
      review_text = ''A masterpiece of open-world design.'',
      content_type = GAME, cover_image = None, platform = NONE, platform_username = []\<rparr>"

text \<open>A narrow card, a review of ten words, and a review with a cover that is not there.\<close>

definition narrow_style :: card_style where
  "narrow_style = default_style\<lparr>width := 500\<rparr>"

definition long_review :: review_data where
  "long_review = sample_review\<lparr>review_text := ''alpha beta gamma delta epsilon zeta eta theta iota kappa''\<rparr>"


section \<open>The text wrapper: lemmas\<close>

lemma join_sp_snoc: "xs \<noteq> [] \<Longrightarrow> join_sp (xs @ [w]) = join_sp xs @ CHR '' '' # w"
  by (induction xs rule: join_sp.induct) auto

lemma join_sp_append:
  "xs \<noteq> [] \<Longrightarrow> ys \<noteq> [] \<Longrightarrow> join_sp (xs @ ys) = join_sp xs @ CHR '' '' # join_sp ys"
  by (induction xs rule: join_sp.induct) (auto simp: neq_Nil_conv)

lemma join_sp_concat:
  "[] \<notin> set gs \<Longrightarrow> join_sp (map join_sp gs) = join_sp (concat gs)"
proof (induction gs)
  case Nil
  then show ?case by simp
next
  case (Cons g gs)
  show ?case
  proof (cases gs)
    case Nil
    then show ?thesis by simp
  next
    case (Cons h hs)
    with Cons.prems have ne: "g \<noteq> []" "concat gs \<noteq> []" by auto
    have "join_sp (map join_sp (g # gs)) = join_sp g @ CHR '' '' # join_sp (map join_sp gs)"
      using Cons by simp
    also have "\<dots> = join_sp g @ CHR '' '' # join_sp (concat gs)"
      using Cons.IH Cons.prems by simp
    also have "\<dots> = join_sp (concat (g # gs))"
      using ne by (simp add: join_sp_append)
    finally show ?thesis .
  qed
qed

lemma wrap_loop_groups:
  "wrap_loop font mw ws (map join_sp gs) cur = (lines', cur') \<Longrightarrow>
   [] \<notin> set gs \<Longrightarrow> (\<forall>g\<in>set gs. fits font mw g) \<Longrightarrow> cur = [] \<or> fits font mw cur \<Longrightarrow>
   \<exists>gs'. lines' = map join_sp gs' \<and> [] \<notin> set gs' \<and> (\<forall>g\<in>set gs'. fits font mw g) \<and>
         (cur' = [] \<or> fits font mw cur') \<and> concat gs' @ cur' = concat gs @ cur @ ws"
proof (induction ws arbitrary: gs cur)
  case Nil
  then show ?case by auto
next
  case (Cons w ws)
  show ?case
  proof (cases "font (join_sp (cur @ [w])) \<le> mw")
    case True
    with Cons.prems(1) have "wrap_loop font mw ws (map join_sp gs) (cur @ [w]) = (lines', cur')"
      by simp
    moreover have "cur @ [w] = [] \<or> fits font mw (cur @ [w])"
      using True by (simp add: fits_def)
    ultimately show ?thesis
      using Cons.IH [of gs "cur @ [w]"] Cons.prems(2,3) by auto
  next
    case False
    show ?thesis
    proof (cases "cur = []")
      case True
      with False Cons.prems(1) have "wrap_loop font mw ws (map join_sp gs) [w] = (lines', cur')"
        by simp
      moreover have "[w] = [] \<or> fits font mw [w]" by (simp add: fits_def)
      ultimately show ?thesis
        using Cons.IH [of gs "[w]"] Cons.prems(2,3) True by auto
    next
      case ne: False
      with False Cons.prems(1)
      have "wrap_loop font mw ws (map join_sp (gs @ [cur])) [w] = (lines', cur')"
        by simp
      moreover have "[w] = [] \<or> fits font mw [w]" by (simp add: fits_def)
      moreover have "[] \<notin> set (gs @ [cur])" using ne Cons.prems(2) by auto
      moreover have "\<forall>g\<in>set (gs @ [cur]). fits font mw g"
        using ne Cons.prems(3,4) by auto
      ultimately show ?thesis
        using Cons.IH [of "gs @ [cur]" "[w]"] by auto
    qed
  qed
qed

lemma wrap_text_groups:
  "\<exists>gs. wrap_text text font mw = map join_sp gs \<and> [] \<notin> set gs \<and>
        (\<forall>g\<in>set gs. fits font mw g) \<and> concat gs = split_ws text"
proof -
  obtain lines' cur' where w: "wrap_loop font mw (split_ws text) [] [] = (lines', cur')"
    by (cases "wrap_loop font mw (split_ws text) [] []")
  then have "wrap_loop font mw (split_ws text) (map join_sp []) [] = (lines', cur')"
    by simp
  from wrap_loop_groups [OF this]
  obtain gs' where g: "lines' = map join_sp gs'" "[] \<notin> set gs'"
      "\<forall>g\<in>set gs'. fits font mw g" "cur' = [] \<or> fits font mw cur'"
      "concat gs' @ cur' = split_ws text"
    by auto
  show ?thesis
  proof (cases "cur' = []")
    case True
    with w g show ?thesis by (auto simp: wrap_text_def)
  next
    case False
    with w g have "wrap_text text font mw = map join_sp (gs' @ [cur'])"
      by (simp add: wrap_text_def)
    moreover have "[] \<notin> set (gs' @ [cur'])" using False g by auto
    moreover have "\<forall>g\<in>set (gs' @ [cur']). fits font mw g" using False g by auto
    moreover have "concat (gs' @ [cur']) = split_ws text" using g by simp
    ultimately show ?thesis by blast
  qed
qed

lemma split_acc_all_space: "list_all isspace cs \<Longrightarrow> split_acc [] cs = []"
  by (induction cs) auto

lemma wrap_loop_one_line:
  "(\<forall>k. 0 < k \<and> k \<le> length ws \<longrightarrow> font (join_sp (cur @ take k ws)) \<le> mw) \<Longrightarrow>
   wrap_loop font mw ws lines cur = (lines, cur @ ws)"
proof (induction ws arbitrary: cur)
  case Nil
  then show ?case by simp
next
  case (Cons w ws)
  have "font (join_sp (cur @ [w])) \<le> mw"
    using Cons.prems [rule_format, of 1] by simp
  moreover have "\<forall>k. 0 < k \<and> k \<le> length ws \<longrightarrow> font (join_sp ((cur @ [w]) @ take k ws)) \<le> mw"
  proof (intro allI impI)
    fix k assume "0 < k \<and> k \<le> length ws"
    then show "font (join_sp ((cur @ [w]) @ take k ws)) \<le> mw"
      using Cons.prems [rule_format, of "Suc k"] by simp
  qed
  ultimately show ?case using Cons.IH [of "cur @ [w]"] by simp
qed


lemma split_acc_word:
  "list_all (\<lambda>c. \<not> isspace c) w \<Longrightarrow> split_acc cur (w @ rest) = split_acc (cur @ w) rest"
  by (induction w arbitrary: cur) auto

lemma split_acc_leading: "list_all isspace pre \<Longrightarrow> split_acc [] (pre @ rest) = split_acc [] rest"
  by (induction pre) auto

lemma split_acc_trailing: "cur \<noteq> [] \<Longrightarrow> list_all isspace post \<Longrightarrow> split_acc cur post = [cur]"
  by (cases post) (auto simp: split_acc_all_space)

lemma split_acc_join:
  "list_all is_word ws \<Longrightarrow> list_all isspace post \<Longrightarrow> split_acc [] (join_sp ws @ post) = ws"
proof (induction ws rule: join_sp.induct)
  case 1
  then show ?case by (simp add: split_acc_all_space)
next
  case (2 w)
  then show ?case by (simp add: is_word_def split_acc_word split_acc_trailing)
next
  case (3 w v ws)
  have sp: "isspace CHR '' ''" by (simp add: isspace_def)
  from 3 have w: "w \<noteq> []" "list_all (\<lambda>c. \<not> isspace c) w" by (simp_all add: is_word_def)
  have "split_acc [] (join_sp (w # v # ws) @ post)
      = split_acc [] (w @ (CHR '' '' # join_sp (v # ws) @ post))" by simp
  also have "\<dots> = split_acc w (CHR '' '' # join_sp (v # ws) @ post)"
    using w(2) by (simp only: split_acc_word append_Nil)
  also have "\<dots> = w # split_acc [] (join_sp (v # ws) @ post)"
    using w(1) sp by simp
  also have "\<dots> = w # v # ws" using 3 by simp
  finally show ?case .
qed

lemma split_ws_single_spaced:
  "list_all isspace pre \<Longrightarrow> list_all isspace post \<Longrightarrow> list_all is_word ws \<Longrightarrow>
   split_ws (pre @ join_sp ws @ post) = ws"
  by (simp add: split_ws_def split_acc_leading split_acc_join)

lemma join_sp_ends:
  "ws \<noteq> [] \<Longrightarrow> list_all is_word ws \<Longrightarrow>
   join_sp ws \<noteq> [] \<and> \<not> isspace (hd (join_sp ws)) \<and> \<not> isspace (last (join_sp ws))"
proof (induction ws rule: join_sp.induct)
  case 1
  then show ?case by simp
next
  case (2 w)
  then have "w \<noteq> []" "\<forall>c\<in>set w. \<not> isspace c" by (simp_all add: is_word_def list_all_iff)
  then show ?case by simp
next
  case (3 w v ws)
  then show ?case by (cases w) (auto simp: is_word_def)
qed

lemma dropWhile_all: "list_all P xs \<Longrightarrow> dropWhile P (xs @ ys) = dropWhile P ys"
  by (induction xs) auto

lemma strip_single_spaced:
  assumes "list_all isspace pre" "list_all isspace post" "ws \<noteq> []" "list_all is_word ws"
  shows "strip (pre @ join_sp ws @ post) = join_sp ws"
proof -
  let ?s = "join_sp ws"
  from join_sp_ends [OF assms(3,4)]
  have ne: "?s \<noteq> []" and h: "\<not> isspace (hd ?s)" and l: "\<not> isspace (last ?s)" by auto
  have d1: "dropWhile isspace (pre @ ?s @ post) = ?s @ post"
    using assms(1) ne h by (cases ?s) (auto simp: dropWhile_all)
  have "list_all isspace (rev post)" using assms(2) by (simp add: list_all_iff)
  then have "dropWhile isspace (rev post @ rev ?s) = dropWhile isspace (rev ?s)"
    by (rule dropWhile_all)
  also have "\<dots> = rev ?s"
    using ne l by (cases ?s rule: rev_cases) auto
  finally show ?thesis by (simp add: strip_def d1)
qed

lemma split_acc_words:
  "list_all (\<lambda>c. \<not> isspace c) cur \<Longrightarrow> w \<in> set (split_acc cur cs) \<Longrightarrow> is_word w"
  by (induction cur cs rule: split_acc.induct) (auto simp: is_word_def split: if_splits)

lemma split_ws_words: "w \<in> set (split_ws text) \<Longrightarrow> is_word w"
  using split_acc_words [of "[]" w "text"] by (simp add: split_ws_def)

lemma strip_empty_iff: "strip t = [] \<longleftrightarrow> list_all isspace t"
proof
  assume "strip t = []"
  then have a: "\<forall>c\<in>set (dropWhile isspace t). isspace c"
    by (simp add: strip_def)
  have "dropWhile isspace t = []"
  proof (rule ccontr)
    assume ne: "dropWhile isspace t \<noteq> []"
    then have "\<not> isspace (hd (dropWhile isspace t))" by (rule hd_dropWhile)
    with a ne show False by simp
  qed
  then show "list_all isspace t" by (simp add: list_all_iff)
next
  assume "list_all isspace t"
  then show "strip t = []"
    by (auto simp: strip_def list_all_iff dest: set_dropWhileD)
qed

lemma split_acc_empty_iff: "split_acc cur cs = [] \<longleftrightarrow> cur = [] \<and> list_all isspace cs"
  by (induction cs arbitrary: cur) auto

lemma split_ws_empty_iff: "split_ws t = [] \<longleftrightarrow> list_all isspace t"
  by (simp add: split_ws_def split_acc_empty_iff)


section \<open>The text wrapper: properties\<close>

lemma mono10_wrap_example:
  "wrap_text ''tiny supercalifragilistic ab cd'' mono10 60 =
     [''tiny'', ''supercalifragilistic'', ''ab cd'']"
  by (simp add: wrap_text_def split_ws_def isspace_def mono10_def)

text \<open>
  Claim C4. Every line the wrapper emits is the space-joined text of a non-empty run of
  consecutive whole words of the input (a word is never split), and it either measures at
  most \<open>max_width\<close> or consists of exactly one word.
\<close>

theorem wrap_text_line_width:
  "l \<in> set (wrap_text text font max_width) \<Longrightarrow>
   \<exists>g. g \<noteq> [] \<and> l = join_sp g \<and> (\<exists>ps ss. split_ws text = ps @ g @ ss) \<and>
       list_all is_word g \<and> (font l \<le> max_width \<or> length g = 1)"
proof -
  assume l: "l \<in> set (wrap_text text font max_width)"
  from wrap_text_groups [of "text" font max_width]
  obtain gs where gs: "wrap_text text font max_width = map join_sp gs" "[] \<notin> set gs"
      "\<forall>g\<in>set gs. fits font max_width g" "concat gs = split_ws text"
    by blast
  from l gs(1) obtain g where g: "g \<in> set gs" "l = join_sp g" by auto
  then obtain as bs where "gs = as @ g # bs" by (auto simp: in_set_conv_decomp)
  then have "split_ws text = concat as @ g @ concat bs" using gs(4) by simp
  moreover have "g \<noteq> []" using g(1) gs(2) by auto
  moreover have "font l \<le> max_width \<or> length g = 1"
    using g gs(3) by (auto simp: fits_def)
  moreover have "list_all is_word g"
  proof -
    have "set g \<subseteq> set (split_ws text)" using g(1) gs(4) [symmetric] by auto
    then show ?thesis using split_ws_words by (auto simp: list_all_iff)
  qed
  ultimately show ?thesis using g(2) by blast
qed

text \<open>
  In the example the over-long word is a line of its own, wider than the 60 pixels.
\<close>

theorem wrap_text_line_width_witness:
  "''supercalifragilistic'' \<in> set (wrap_text ''tiny supercalifragilistic ab cd'' mono10 60) \<and>
   (\<exists>g. g \<noteq> [] \<and> ''supercalifragilistic'' = join_sp g \<and>
        (\<exists>ps ss. split_ws ''tiny supercalifragilistic ab cd'' = ps @ g @ ss) \<and>
        list_all is_word g \<and> (mono10 ''supercalifragilistic'' \<le> 60 \<or> length g = 1))"
proof -
  have m: "''supercalifragilistic'' \<in> set (wrap_text ''tiny supercalifragilistic ab cd'' mono10 60)"
    by (simp add: wrap_text_def split_ws_def isspace_def mono10_def)
  from wrap_text_line_width [OF m] m show ?thesis by blast
qed

text \<open>
  Claim C5, as amended. When the text has at least one word and the space-joined text of
  its first \<open>k\<close> words measures at most \<open>max_width\<close> for every \<open>k\<close> from one to the
  number of words, the wrapper returns exactly one line: the words joined by single
  spaces, \<open>' '.join(text.split())\<close>. That line is the trimmed input whenever the input
  is a sequence of words separated by single spaces, with any whitespace before and after.
\<close>

theorem wrap_text_short_text:
  assumes "split_ws text \<noteq> []"
    and "\<forall>k. 0 < k \<and> k \<le> length (split_ws text) \<longrightarrow>
           font (join_sp (take k (split_ws text))) \<le> max_width"
  shows "wrap_text text font max_width = [join_sp (split_ws text)] \<and>
         (\<forall>pre ws post. text = pre @ join_sp ws @ post \<and> blank pre \<and> blank post \<and>
            list_all is_word ws \<longrightarrow> wrap_text text font max_width = [strip text])"
proof -
  have "\<forall>k. 0 < k \<and> k \<le> length (split_ws text) \<longrightarrow>
          font (join_sp ([] @ take k (split_ws text))) \<le> max_width"
    using assms(2) by simp
  then have "wrap_loop font max_width (split_ws text) [] [] = ([], [] @ split_ws text)"
    by (rule wrap_loop_one_line)
  then have one: "wrap_text text font max_width = [join_sp (split_ws text)]"
    using assms(1) by (simp add: wrap_text_def)
  have "wrap_text text font max_width = [strip text]"
    if "text = pre @ join_sp ws @ post \<and> blank pre \<and> blank post \<and> list_all is_word ws"
    for pre ws post
  proof -
    from that have t: "text = pre @ join_sp ws @ post" and b: "list_all isspace pre"
      "list_all isspace post" and w: "list_all is_word ws"
      by (simp_all add: blank_def)
    have sw: "split_ws text = ws" unfolding t using b w by (rule split_ws_single_spaced)
    with assms(1) have "ws \<noteq> []" by simp
    with b w have "strip text = join_sp ws" unfolding t by (simp add: strip_single_spaced)
    with one sw show ?thesis by simp
  qed
  with one show ?thesis by blast
qed

theorem wrap_text_short_text_witness:
  "split_ws ''  hello world '' \<noteq> [] \<and>
   wrap_text ''  hello world '' mono10 200 = [''hello world''] \<and>
   strip ''  hello world '' = ''hello world''"
proof -
  have w: "split_ws ''  hello world '' = [''hello'', ''world'']"
    by (simp add: split_ws_def isspace_def)
  have ne: "split_ws ''  hello world '' \<noteq> []" by (simp add: w)
  have fit: "\<forall>k. 0 < k \<and> k \<le> length (split_ws ''  hello world '') \<longrightarrow>
      mono10 (join_sp (take k (split_ws ''  hello world ''))) \<le> 200"
  proof (intro allI impI)
    fix k :: nat assume "0 < k \<and> k \<le> length (split_ws ''  hello world '')"
    then have "k = 1 \<or> k = 2" by (auto simp: w)
    then show "mono10 (join_sp (take k (split_ws ''  hello world ''))) \<le> 200"
      by (auto simp: w mono10_def)
  qed
  have s: "strip ''  hello world '' = ''hello world''" by (simp add: strip_def isspace_def)
  from wrap_text_short_text [OF ne fit] have "wrap_text ''  hello world '' mono10 200 = [join_sp (split_ws ''  hello world '')]"
    by blast
  then show ?thesis using ne s by (simp add: w)
qed

text \<open>
  Claim C5 as stated fails twice under a fixed-pitch font. \<open>"a  b"\<close>, two spaces inside,
  measures 40 of 100 pixels and comes back as the line \<open>"a b"\<close>, which is not the trimmed
  input \<open>"a  b"\<close>. The non-empty text of two spaces measures 20 of 100 pixels and comes
  back as no line at all.
\<close>

theorem wrap_text_short_text_counterexample:
  "''a  b'' \<noteq> [] \<and> mono10 ''a  b'' < 100 \<and>
   wrap_text ''a  b'' mono10 100 = [''a b''] \<and> strip ''a  b'' = ''a  b'' \<and>
   wrap_text ''a  b'' mono10 100 \<noteq> [strip ''a  b''] \<and>
   ''  '' \<noteq> [] \<and> mono10 ''  '' < 100 \<and> wrap_text ''  '' mono10 100 = [] \<and>
   length (wrap_text ''  '' mono10 100) \<noteq> 1"
  by (simp add: wrap_text_def split_ws_def isspace_def mono10_def strip_def)

text \<open>
  Claim C10. Joining the lines of the wrapper with single spaces gives the words of the
  input joined with single spaces, \<open>' '.join(text.split())\<close>: the lines are the joined
  texts of non-empty groups of words whose concatenation is the word sequence of the
  input, so no word is lost, duplicated or reordered. An empty or whitespace-only input
  gives no line.
\<close>

theorem wrap_text_preserves_words:
  "join_sp (wrap_text text font max_width) = join_sp (split_ws text) \<and>
   (\<exists>gs. wrap_text text font max_width = map join_sp gs \<and> [] \<notin> set gs \<and>
         concat gs = split_ws text) \<and>
   (blank text \<longrightarrow> wrap_text text font max_width = [])"
proof -
  from wrap_text_groups [of "text" font max_width]
  obtain gs where gs: "wrap_text text font max_width = map join_sp gs" "[] \<notin> set gs"
      "concat gs = split_ws text"
    by blast
  have "join_sp (wrap_text text font max_width) = join_sp (split_ws text)"
    using gs by (simp add: join_sp_concat)
  moreover have "wrap_text text font max_width = []" if "blank text"
  proof -
    from that have "split_ws text = []" by (simp add: split_ws_empty_iff blank_def)
    then show ?thesis by (simp add: wrap_text_def)
  qed
  ultimately show ?thesis using gs by blast
qed

theorem wrap_text_preserves_words_witness:
  "blank [CHR '' '', CHR 0x09, CHR '' ''] \<and> wrap_text [CHR '' '', CHR 0x09, CHR '' ''] mono10 60 = [] \<and>
   join_sp (wrap_text ''tiny  supercalifragilistic ab   cd '' mono10 60) =
     ''tiny supercalifragilistic ab cd''"
proof -
  have b: "blank [CHR '' '', CHR 0x09, CHR '' '']" by (simp add: blank_def isspace_def)
  have s: "join_sp (split_ws ''tiny  supercalifragilistic ab   cd '') = ''tiny supercalifragilistic ab cd''"
    by (simp add: split_ws_def isspace_def)
  show ?thesis
    using wrap_text_preserves_words [of "[CHR '' '', CHR 0x09, CHR '' '']" mono10 60]
      wrap_text_preserves_words [of "''tiny  supercalifragilistic ab   cd ''" mono10 60] b s
    by simp
qed

text \<open>
  For a font whose measure never falls below that of a word of the line, a word wider
  than \<open>max_width\<close> is a line of its own.
\<close>

lemma overlong_word_own_line:
  fixes font :: font
  assumes mono: "\<And>g v. v \<in> set g \<Longrightarrow> font v \<le> font (join_sp g)"
    and w: "w \<in> set (split_ws text)" and long: "max_width < font w"
  shows "w \<in> set (wrap_text text font max_width)"
proof -
  from wrap_text_groups [of "text" font max_width]
  obtain gs where gs: "wrap_text text font max_width = map join_sp gs"
      "\<forall>g\<in>set gs. fits font max_width g" "concat gs = split_ws text"
    by blast
  from w have "w \<in> set (concat gs)" by (simp add: gs(3))
  then obtain g where g: "g \<in> set gs" "w \<in> set g" by auto
  have "\<not> font (join_sp g) \<le> max_width" using mono [OF g(2)] long by simp
  with g(1) gs(2) have "length g = 1" by (auto simp: fits_def)
  with g(2) have "g = [w]" by (cases g) auto
  with g(1) gs(1) show ?thesis by force
qed

text \<open>
  For a font whose measure does not decrease when a word is appended, one bound on the
  whole collapsed text is enough for a single line.
\<close>

lemma prefix_monotone:
  fixes font :: font
  assumes mono: "\<And>g v. font (join_sp g) \<le> font (join_sp (g @ [v]))"
  shows "font (join_sp (take k ws)) \<le> font (join_sp ws)"
proof (induction ws rule: rev_induct)
  case Nil
  then show ?case by simp
next
  case (snoc v ws)
  show ?case
  proof (cases "k \<le> length ws")
    case True
    then have "take k (ws @ [v]) = take k ws" by simp
    with snoc mono [of ws v] show ?thesis by simp
  next
    case False
    then show ?thesis by simp
  qed
qed

lemma wrap_text_short_monotone:
  assumes mono: "\<And>g v. font (join_sp g) \<le> font (join_sp (g @ [v]))"
    and "split_ws text \<noteq> []" and "font (join_sp (split_ws text)) \<le> max_width"
  shows "wrap_text text font max_width = [join_sp (split_ws text)]"
proof -
  have "\<forall>k. 0 < k \<and> k \<le> length (split_ws text) \<longrightarrow>
          font (join_sp ([] @ take k (split_ws text))) \<le> max_width"
    using prefix_monotone [of font _ "split_ws text", OF mono] assms(3)
    by (auto intro: order_trans)
  then have "wrap_loop font max_width (split_ws text) [] [] = ([], [] @ split_ws text)"
    by (rule wrap_loop_one_line)
  then show ?thesis using assms(2) by (simp add: wrap_text_def)
qed

section \<open>Validation\<close>

lemma py_le_range: "(py_le (Fin 0) x \<and> py_le x (Fin 10)) = score_in_range x"
  by (cases x) auto

lemma empty_or_strip: "(t = [] \<or> strip t = []) = blank t"
  by (auto simp: strip_empty_iff blank_def)

lemma validate_valid: "valid_review r \<Longrightarrow> validate r = Inr True"
  by (simp add: validate_def valid_review_def py_le_range empty_or_strip)

lemma validate_invalid: "\<not> valid_review r \<Longrightarrow> \<exists>msg. validate r = Inl (ValueError msg)"
  by (auto simp: validate_def valid_review_def py_le_range empty_or_strip)

lemma format_score_in_range: "score_in_range x \<Longrightarrow> \<exists>t. format_score x = Inr t"
  by (cases x) auto

lemma draw_score_in_range:
  "score_in_range (score r) \<Longrightarrow> \<exists>scored. draw_score style r st = Inr scored"
  using format_score_in_range [of "score r"] by (auto simp: draw_score_def Let_def)

text \<open>
  Claim C1. A review whose title is empty or whitespace-only, or whose review text is,
  or whose score is not in \<open>[0, 10]\<close>, makes \<open>generate\<close> raise the \<open>ValueError\<close> of
  \<open>validate\<close>: the result is that error and no canvas. A valid review passes
  validation and \<open>generate\<close> returns a canvas.
\<close>

theorem generate_validation:
  "(valid_review r \<longrightarrow> validate r = Inr True \<and> (\<exists>c. generate e style r = Inr c)) \<and>
   (\<not> valid_review r \<longrightarrow>
      (\<exists>msg. validate r = Inl (ValueError msg) \<and> generate e style r = Inl (ValueError msg)))"
proof (intro conjI impI)
  assume v: "valid_review r"
  then show "validate r = Inr True" by (rule validate_valid)
  from v have "score_in_range (score r)" by (simp add: valid_review_def)
  from draw_score_in_range [OF this]
  obtain scored where
    "draw_score style r (draw_title style r (draw_cover e style r
        (create_rounded_rectangle (width style, height style) (corner_radius style)
           (background_color style)))) = Inr scored"
    by blast
  then show "\<exists>c. generate e style r = Inr c"
    using validate_valid [OF v] by (simp add: generate_def Let_def)
next
  assume "\<not> valid_review r"
  from validate_invalid [OF this] obtain msg where "validate r = Inl (ValueError msg)" by blast
  then show "\<exists>msg. validate r = Inl (ValueError msg) \<and> generate e style r = Inl (ValueError msg)"
    by (simp add: generate_def)
qed

lemma valid_sample: "valid_review sample_review"
  by (simp add: valid_review_def sample_review_def blank_def isspace_def)

lemma invalid_samples:
  "\<not> valid_review (sample_review\<lparr>title := []\<rparr>)"
  "\<not> valid_review (sample_review\<lparr>review_text := '' ''\<rparr>)"
  "\<not> valid_review (sample_review\<lparr>score := Fin (- 1)\<rparr>)"
  "\<not> valid_review (sample_review\<lparr>score := Fin (1001 / 100)\<rparr>)"
  "\<not> valid_review (sample_review\<lparr>score := Nan\<rparr>)"
  by (simp_all add: valid_review_def sample_review_def blank_def isspace_def)

theorem generate_validation_witness:
  "valid_review sample_review \<and> (\<exists>c. generate offline_env default_style sample_review = Inr c) \<and>
   \<not> valid_review (sample_review\<lparr>title := []\<rparr>) \<and>
   (\<exists>msg. generate offline_env default_style (sample_review\<lparr>title := []\<rparr>) = Inl (ValueError msg)) \<and>
   \<not> valid_review (sample_review\<lparr>score := Fin (1001 / 100)\<rparr>) \<and>
   (\<exists>msg. generate offline_env default_style (sample_review\<lparr>score := Fin (1001 / 100)\<rparr>) = Inl (ValueError msg))"
  using generate_validation [of sample_review offline_env default_style]
    generate_validation [of "sample_review\<lparr>title := []\<rparr>" offline_env default_style]
    generate_validation [of "sample_review\<lparr>score := Fin (1001 / 100)\<rparr>" offline_env default_style]
    valid_sample invalid_samples(1,4)
  by blast

section \<open>The score classifier: properties\<close>

text \<open>
  Claim C2. For a score in \<open>[0, 10]\<close> the colour is the bucket chosen by the inclusive
  lower bounds 8, 6 and 4 tried in descending order; so each bucket is exactly one
  interval, and the boundaries 8, 6 and 4 fall in the higher bucket.
\<close>

theorem score_color_buckets:
  "0 \<le> s \<Longrightarrow> s \<le> 10 \<Longrightarrow>
   get_score_color (Fin s) =
     bucket_color (if 8 \<le> s then Good else if 6 \<le> s then Okay else if 4 \<le> s then Poor else Bad) \<and>
   (get_score_color (Fin s) = bucket_color Good \<longleftrightarrow> 8 \<le> s) \<and>
   (get_score_color (Fin s) = bucket_color Okay \<longleftrightarrow> 6 \<le> s \<and> s < 8) \<and>
   (get_score_color (Fin s) = bucket_color Poor \<longleftrightarrow> 4 \<le> s \<and> s < 6) \<and>
   (get_score_color (Fin s) = bucket_color Bad \<longleftrightarrow> s < 4)"
  by (auto simp: get_score_color_def)

theorem score_color_buckets_witness:
  "get_score_color (Fin 8) = bucket_color Good \<and>
   get_score_color (Fin (7999 / 1000)) = bucket_color Okay \<and>
   get_score_color (Fin 6) = bucket_color Okay \<and>
   get_score_color (Fin 4) = bucket_color Poor \<and>
   get_score_color (Fin (399 / 100)) = bucket_color Bad \<and>
   get_score_color (Fin 10) = (34, 197, 94) \<and>
   get_score_color (Fin 0) = (239, 68, 68)"
  using score_color_buckets [of 8] score_color_buckets [of "7999 / 1000"]
    score_color_buckets [of 6] score_color_buckets [of 4] score_color_buckets [of "399 / 100"]
    score_color_buckets [of 10] score_color_buckets [of 0]
  by simp

lemma round_half_even_close: "\<bar>x - of_int (round_half_even x)\<bar> \<le> 1 / 2"
proof -
  have "of_int \<lfloor>x\<rfloor> \<le> x" "x < of_int \<lfloor>x\<rfloor> + 1" by linarith+
  then show ?thesis by (auto simp: round_half_even_def Let_def)
qed

lemma round_half_even_bounds:
  "of_int a \<le> x \<Longrightarrow> x \<le> of_int b \<Longrightarrow> a \<le> round_half_even x \<and> round_half_even x \<le> b"
proof -
  assume a: "of_int a \<le> x" and b: "x \<le> of_int b"
  have f: "of_int \<lfloor>x\<rfloor> \<le> x" "x < of_int \<lfloor>x\<rfloor> + 1" by linarith+
  have af: "a \<le> \<lfloor>x\<rfloor>" using a by (simp add: le_floor_iff)
  have fb: "\<lfloor>x\<rfloor> \<le> b" using b by (simp add: floor_le_iff)
  show ?thesis
  proof (cases "x = of_int \<lfloor>x\<rfloor>")
    case True
    then have "x - of_int \<lfloor>x\<rfloor> = 0" by simp
    then have "round_half_even x = \<lfloor>x\<rfloor>" by (simp add: round_half_even_def Let_def)
    with af fb show ?thesis by simp
  next
    case False
    with f(1) have "of_int \<lfloor>x\<rfloor> < x" by linarith
    with b have "of_int \<lfloor>x\<rfloor> < (of_int b :: rat)" by simp
    then have "\<lfloor>x\<rfloor> < b" by simp
    moreover have "round_half_even x = \<lfloor>x\<rfloor> \<or> round_half_even x = \<lfloor>x\<rfloor> + 1"
      by (simp add: round_half_even_def Let_def)
    ultimately show ?thesis using af by auto
  qed
qed

lemma show_nat_digit: "n < 10 \<Longrightarrow> show_nat n = [digit_char n]"
  by (subst show_nat.simps) simp

lemma py_int_nonneg: "0 \<le> q \<Longrightarrow> py_int q = \<lfloor>q\<rfloor>"
  by (simp add: py_int_def)

text \<open>
  Claim C3. For a score \<open>s\<close> in \<open>[0, 10]\<close>: when \<open>s\<close> is an integer the label is the
  decimal digits of \<open>int(s)\<close> followed by \<open>/10\<close>; otherwise it is \<open>s\<close> in the \<open>.1f\<close>
  format followed by \<open>/10\<close>, that is integer digits, a point and exactly one digit,
  naming a number within one twentieth of \<open>s\<close>.
\<close>

theorem format_score_label:
  assumes "0 \<le> s" and "s \<le> 10"
  shows "(s \<in> \<int> \<longrightarrow>
            (\<exists>k\<le>10. s = of_nat k \<and> py_int s = int k \<and>
                    format_score (Fin s) = Inr (show_nat k @ ''/10''))) \<and>
         (s \<notin> \<int> \<longrightarrow>
            format_score (Fin s) = Inr (fmt_1f s @ ''/10'') \<and>
            (\<exists>n d. n \<le> 10 \<and> d < 10 \<and> fmt_1f s = show_nat n @ [CHR ''.'', digit_char d] \<and>
                   \<bar>s - (of_nat n + of_nat d / 10)\<bar> \<le> 1 / 20))"
proof (intro conjI impI)
  assume "s \<in> \<int>"
  then obtain i :: int where i: "s = of_int i" by (auto elim: Ints_cases)
  with assms have "0 \<le> i" "i \<le> 10" by simp_all
  define k where "k = nat i"
  with \<open>0 \<le> i\<close> \<open>i \<le> 10\<close> have k: "i = int k" "k \<le> 10" by simp_all
  have p: "py_int s = int k" using i k by (simp add: py_int_def)
  have "format_score (Fin s) = Inr (show_nat k @ ''/10'')"
    using i k p by (simp add: show_int_def)
  with i k p show "\<exists>k\<le>10. s = of_nat k \<and> py_int s = int k \<and>
      format_score (Fin s) = Inr (show_nat k @ ''/10'')"
    by auto
next
  assume ni: "s \<notin> \<int>"
  have "s \<noteq> of_int (py_int s)"
  proof
    assume "s = of_int (py_int s)"
    then have "s \<in> \<int>" by (metis Ints_of_int)
    with ni show False by simp
  qed
  then show "format_score (Fin s) = Inr (fmt_1f s @ ''/10'')" by simp
  define m where "m = round_half_even (s * 10)"
  have "of_int 0 \<le> s * 10" "s * 10 \<le> of_int 100" using assms by simp_all
  from round_half_even_bounds [OF this] have mb: "0 \<le> m" "m \<le> 100" by (simp_all add: m_def)
  define n d where "n = nat m div 10" and "d = nat m mod 10"
  have nd: "n \<le> 10" "d < 10" using mb by (simp_all add: n_def d_def)
  have "fmt_1f s = show_nat n @ [CHR ''.'', digit_char d]"
    using assms(1) by (simp add: fmt_1f_def Let_def m_def n_def d_def abs_of_nonneg)
  moreover have "\<bar>s - (of_nat n + of_nat d / 10)\<bar> \<le> 1 / 20"
  proof -
    have "nat m = 10 * n + d" by (simp add: n_def d_def)
    then have "m = 10 * int n + int d" using mb by linarith
    then have "(of_int m :: rat) = 10 * of_nat n + of_nat d" by simp
    moreover have "\<bar>s * 10 - of_int m\<bar> \<le> 1 / 2"
      unfolding m_def by (rule round_half_even_close)
    ultimately show ?thesis by (simp add: abs_le_iff field_simps)
  qed
  ultimately show "\<exists>n d. n \<le> 10 \<and> d < 10 \<and> fmt_1f s = show_nat n @ [CHR ''.'', digit_char d] \<and>
      \<bar>s - (of_nat n + of_nat d / 10)\<bar> \<le> 1 / 20"
    using nd by blast
qed

text \<open>
  The labels of the specification's examples; \<open>2246170314151035 / 562949953421312\<close> is
  the float nearest to 3.99. A tie goes to the even digit.
\<close>

lemma show_nat_examples:
  "show_nat 0 = ''0''" "show_nat 7 = ''7''" "show_nat 10 = ''10''" "show_nat 2048 = ''2048''"
  by code_simp+

lemma format_score_examples:
  "format_score (Fin (19 / 2)) = Inr ''9.5/10''"
  "format_score (Fin 10) = Inr ''10/10''"
  "format_score (Fin 4) = Inr ''4/10''"
  "format_score (Fin (399 / 100)) = Inr ''4.0/10''"
  "format_score (Fin (2246170314151035 / 562949953421312)) = Inr ''4.0/10''"
  "format_score (Fin (1 / 4)) = Inr ''0.2/10''"
  "format_score (Fin (3 / 4)) = Inr ''0.8/10''"
  by code_simp+

theorem format_score_label_witness:
  "(0::rat) \<le> 19 / 2 \<and> (19 / 2 :: rat) \<le> 10 \<and> (19 / 2 :: rat) \<notin> \<int> \<and>
   format_score (Fin (19 / 2)) = Inr (fmt_1f (19 / 2) @ ''/10'') \<and>
   format_score (Fin (19 / 2)) = Inr ''9.5/10'' \<and>
   (10 :: rat) \<in> \<int> \<and> format_score (Fin 10) = Inr ''10/10'' \<and>
   format_score (Fin (399 / 100)) = Inr ''4.0/10''"
proof -
  have a: "(0::rat) \<le> 19 / 2" "(19 / 2 :: rat) \<le> 10" by simp_all
  have ni: "(19 / 2 :: rat) \<notin> \<int>"
  proof
    assume "(19 / 2 :: rat) \<in> \<int>"
    then obtain i :: int where "(19 / 2 :: rat) = of_int i" by (auto elim: Ints_cases)
    then have "(19 :: rat) = of_int (2 * i)" by simp
    then have "(19 :: int) = 2 * i" using of_int_eq_iff by fastforce
    then show False by presburger
  qed
  from format_score_label [OF a] ni
  have "format_score (Fin (19 / 2)) = Inr (fmt_1f (19 / 2) @ ''/10'')" by blast
  then show ?thesis using a ni format_score_examples by simp
qed

section \<open>The cover normalizer: properties\<close>





section \<open>The compositor: what each step draws\<close>

lemma ops_draw: "ops (draw cv op) = ops cv @ [op]"
  by (simp add: draw_def)


lemma draw_review_lines_ops:
  "ops (fst (draw_review_lines style n i ls (cv, y))) =
     ops cv @ map (\<lambda>k. DrawText (text_x style, y + int k * (review_font_size style + 8))
                        (if i + k = 7 \<and> 8 < n
                         then (if 3 < length (ls ! k) then take (length (ls ! k) - 3) (ls ! k) @ ''...''
                               else ''...'')
                         else ls ! k)
                        (review_font style) (secondary_color style) None) [0..<length ls]"
proof (induction ls arbitrary: i cv y)
  case Nil
  then show ?case by simp
next
  case (Cons l ls)
  show ?case
    by (simp add: Cons.IH ops_draw map_upt_Suc algebra_simps max_review_lines_def Let_def
             del: upt_Suc)
qed

lemma length_rendered_lines: "length (rendered_lines lines) = min 8 (length lines)"
  by (simp add: rendered_lines_def)

lemma rendered_lines_nth:
  assumes "k < min 8 (length lines)"
  shows "rendered_lines lines ! k =
         (if 0 + k = 7 \<and> 8 < length lines
          then (if 3 < length (take 8 lines ! k)
                then take (length (take 8 lines ! k) - 3) (take 8 lines ! k) @ ''...''
                else ''...'')
          else take 8 lines ! k)"
proof (cases "8 < length lines")
  case True
  show ?thesis
  proof (cases "k = 7")
    case k: True
    then show ?thesis using True by (simp add: rendered_lines_def ellipsized_def nth_append)
  next
    case False
    with assms have "k < 7" by simp
    then show ?thesis using True False by (simp add: rendered_lines_def nth_append)
  qed
next
  case False
  then show ?thesis using assms by (simp add: rendered_lines_def)
qed

lemma draw_review_text_ops:
  "ops (fst (draw_review_text style r st)) =
     ops (fst st) @
     map (\<lambda>k. DrawText (text_x style, snd st + score_font_size style + 20 +
                           int k * (review_font_size style + 8))
               (rendered_lines (wrap_text (review_text r) (review_font style) (text_width style)) ! k)
               (review_font style) (secondary_color style) None)
       [0..<length (rendered_lines (wrap_text (review_text r) (review_font style) (text_width style)))]"
proof -
  define lines where "lines = wrap_text (review_text r) (review_font style) (text_width style)"
  have len: "length (rendered_lines lines) = min 8 (length lines)"
    by (rule length_rendered_lines)
  have "ops (fst (draw_review_text style r st)) =
     ops (fst st) @ map (\<lambda>k. DrawText (text_x style, snd st + score_font_size style + 20 +
                                   int k * (review_font_size style + 8))
                        (if 0 + k = 7 \<and> 8 < length lines
                         then (if 3 < length (take 8 lines ! k)
                               then take (length (take 8 lines ! k) - 3) (take 8 lines ! k) @ ''...''
                               else ''...'')
                         else take 8 lines ! k)
                        (review_font style) (secondary_color style) None)
                [0..<length (take 8 lines)]"
    by (simp only: draw_review_text_def Let_def max_review_lines_def
          draw_review_lines_ops lines_def)
  also have "\<dots> = ops (fst st) @ map (\<lambda>k. DrawText (text_x style, snd st + score_font_size style + 20 +
                                   int k * (review_font_size style + 8))
                        (rendered_lines lines ! k) (review_font style) (secondary_color style) None)
                [0..<length (rendered_lines lines)]"
  proof -
    have "length (take 8 lines) = length (rendered_lines lines)" by (simp add: len min.commute)
    moreover have "\<And>k. k \<in> set [0..<length (rendered_lines lines)] \<Longrightarrow> k < min 8 (length lines)"
      by (simp add: len)
    ultimately show ?thesis by (simp only: rendered_lines_nth cong: map_cong)
  qed
  finally show ?thesis unfolding lines_def .
qed

lemma draw_platform_branding_ops:
  "ops (draw_platform_branding e style cv pf user pos) =
     ops cv @ ops (draw_platform_branding e style empty_canvas pf user pos)"
proof (cases pf)
  case NONE
  then show ?thesis by (simp add: draw_platform_branding_def empty_canvas_def)
next
  case BACKLOGGD
  then show ?thesis
    by (simp add: draw_platform_branding_def backloggd_def draw_def Let_def empty_canvas_def
             split: option.split)
next
  case LETTERBOXD
  then show ?thesis
    by (simp add: draw_platform_branding_def letterboxd_def draw_def Let_def empty_canvas_def
             split: option.split)
qed

lemma draw_platform_ops:
  "ops (draw_platform e style r cv) = ops cv @ ops (draw_platform e style r empty_canvas)"
proof (cases "platform r = NONE")
  case True
  then show ?thesis by (simp add: draw_platform_def empty_canvas_def)
next
  case False
  then show ?thesis
    using draw_platform_branding_ops [of e style cv] by (simp add: draw_platform_def)
qed

lemma generate_valid:
  assumes "valid_review r"
  shows "\<exists>scored. draw_score style r (draw_title style r (draw_cover e style r (base_card style)))
            = Inr scored \<and>
         generate e style r =
           Inr (draw_platform e style r (fst (draw_review_text style r scored)))"
proof -
  from assms have "score_in_range (score r)" by (simp add: valid_review_def)
  from draw_score_in_range [OF this]
  obtain scored where
    "draw_score style r (draw_title style r (draw_cover e style r (base_card style))) = Inr scored"
    by blast
  then show ?thesis
    using validate_valid [OF assms] by (simp add: generate_def Let_def base_card_def)
qed

section \<open>The review text: truncation to eight lines\<close>

lemma rendered_lines_cases:
  "(8 < length lines \<longrightarrow>
      length (rendered_lines lines) = 8 \<and> take 7 (rendered_lines lines) = take 7 lines \<and>
      rendered_lines lines ! 7 =
        (if 3 < length (lines ! 7) then take (length (lines ! 7) - 3) (lines ! 7) @ ''...'' else ''...'')) \<and>
   (length lines \<le> 8 \<longrightarrow> rendered_lines lines = lines)"
  by (simp add: rendered_lines_def ellipsized_def nth_append)

text \<open>
  Claim C6. For a valid review, \<open>generate\<close> returns a card whose drawing calls are those
  made up to the score, then one text call per rendered review line, then those of the
  badge. The rendered lines are \<open>rendered_lines\<close> of the wrapped review text: when it
  has more than eight lines, exactly eight are drawn, the first seven unmodified and the
  eighth with its last three characters replaced by \<open>...\<close> (or \<open>...\<close> alone when it has
  three characters or fewer); when it has eight lines or fewer, all are drawn unmodified.
  Line \<open>k\<close> is drawn \<open>k * (review_font_size + 8)\<close> below the first.
\<close>

theorem generate_review_lines:
  assumes "valid_review r"
  shows "\<exists>c scored badge.
     generate e style r = Inr c \<and>
     draw_score style r (draw_title style r (draw_cover e style r (base_card style))) = Inr scored \<and>
     (\<forall>cv. ops (draw_platform e style r cv) = ops cv @ badge) \<and>
     ops c =
       ops (fst scored) @
       map (\<lambda>k. DrawText (text_x style, snd scored + score_font_size style + 20 +
                             int k * (review_font_size style + 8))
                 (rendered_lines (wrap_text (review_text r) (review_font style) (text_width style)) ! k)
                 (review_font style) (secondary_color style) None)
         [0..<length (rendered_lines (wrap_text (review_text r) (review_font style) (text_width style)))] @
       badge \<and>
     length (rendered_lines (wrap_text (review_text r) (review_font style) (text_width style))) =
       min 8 (length (wrap_text (review_text r) (review_font style) (text_width style)))"
proof -
  from generate_valid [OF assms, of style e]
  obtain scored where sc:
    "draw_score style r (draw_title style r (draw_cover e style r (base_card style))) = Inr scored"
    "generate e style r = Inr (draw_platform e style r (fst (draw_review_text style r scored)))"
    by blast
  define badge where "badge = ops (draw_platform e style r empty_canvas)"
  define c where "c = draw_platform e style r (fst (draw_review_text style r scored))"
  have b: "\<forall>cv. ops (draw_platform e style r cv) = ops cv @ badge"
    unfolding badge_def by (rule allI) (rule draw_platform_ops)
  have oc: "ops c = ops (fst (draw_review_text style r scored)) @ badge"
    unfolding c_def using b by simp
  have "generate e style r = Inr c" using sc(2) by (simp add: c_def)
  then show ?thesis
    using sc(1) b oc draw_review_text_ops [of style r scored] length_rendered_lines
    by (intro exI [of _ c] exI [of _ scored] exI [of _ badge]) simp
qed

lemma long_review_lines:
  "wrap_text (review_text long_review) (review_font narrow_style) (text_width narrow_style) =
     [''alpha'', ''beta'', ''gamma'', ''delta'', ''epsilon'', ''zeta'', ''eta'', ''theta'', ''iota'', ''kappa'']"
  by (simp add: long_review_def narrow_style_def default_style_def sample_review_def text_width_def
        text_x_def wrap_text_def split_ws_def isspace_def fixed_pitch_def)

lemma valid_long_review: "valid_review long_review"
  by (simp add: valid_review_def long_review_def sample_review_def blank_def isspace_def)

text \<open>Ten wrapped lines: eight are drawn, the eighth is \<open>theta\<close> cut to \<open>th...\<close>.\<close>

theorem generate_review_lines_witness:
  "valid_review long_review \<and>
   (\<exists>c (scored :: canvas \<times> int) badge.
      generate offline_env narrow_style long_review = Inr c \<and>
      ops c = ops (fst scored) @
              [DrawText (380, snd scored + 92) ''alpha'' (fixed_pitch 12) (156, 163, 175) None,
               DrawText (380, snd scored + 124) ''beta'' (fixed_pitch 12) (156, 163, 175) None,
               DrawText (380, snd scored + 156) ''gamma'' (fixed_pitch 12) (156, 163, 175) None,
               DrawText (380, snd scored + 188) ''delta'' (fixed_pitch 12) (156, 163, 175) None,
               DrawText (380, snd scored + 220) ''epsilon'' (fixed_pitch 12) (156, 163, 175) None,
               DrawText (380, snd scored + 252) ''zeta'' (fixed_pitch 12) (156, 163, 175) None,
               DrawText (380, snd scored + 284) ''eta'' (fixed_pitch 12) (156, 163, 175) None,
               DrawText (380, snd scored + 316) ''th...'' (fixed_pitch 12) (156, 163, 175) None] @
              badge)"
proof -
  have sty: "text_x narrow_style = 380" "score_font_size narrow_style = 72"
    "review_font_size narrow_style = 24" "review_font narrow_style = fixed_pitch 12"
    "secondary_color narrow_style = (156, 163, 175)"
    by (simp_all add: narrow_style_def default_style_def text_x_def)
  have rl: "rendered_lines (wrap_text (review_text long_review) (review_font narrow_style)
                (text_width narrow_style)) =
      [''alpha'', ''beta'', ''gamma'', ''delta'', ''epsilon'', ''zeta'', ''eta'', ''th...'']"
    by (simp add: long_review_lines rendered_lines_def ellipsized_def)
  let ?P = "\<lambda>c scored badge.
     generate offline_env narrow_style long_review = Inr c \<and>
     draw_score narrow_style long_review (draw_title narrow_style long_review
       (draw_cover offline_env narrow_style long_review (base_card narrow_style))) = Inr scored \<and>
     (\<forall>cv. ops (draw_platform offline_env narrow_style long_review cv) = ops cv @ badge) \<and>
     ops c =
       ops (fst scored) @
       map (\<lambda>k. DrawText (text_x narrow_style, snd scored + score_font_size narrow_style + 20 +
                             int k * (review_font_size narrow_style + 8))
                 (rendered_lines (wrap_text (review_text long_review) (review_font narrow_style)
                    (text_width narrow_style)) ! k)
                 (review_font narrow_style) (secondary_color narrow_style) None)
         [0..<length (rendered_lines (wrap_text (review_text long_review) (review_font narrow_style)
                    (text_width narrow_style)))] @
       badge \<and>
     length (rendered_lines (wrap_text (review_text long_review) (review_font narrow_style)
                    (text_width narrow_style))) =
       min 8 (length (wrap_text (review_text long_review) (review_font narrow_style)
                    (text_width narrow_style)))"
  have "\<exists>c scored badge. ?P c scored badge"
    by (rule generate_review_lines [OF valid_long_review])
  then obtain c where "\<exists>scored badge. ?P c scored badge" ..
  then obtain scored where "\<exists>badge. ?P c scored badge" ..
  then obtain badge where p: "?P c scored badge" ..
  note g = p [THEN conjunct1]
  note l = p [THEN conjunct2, THEN conjunct2, THEN conjunct2, THEN conjunct1]
  from l have "ops c = ops (fst scored) @
              [DrawText (380, snd scored + 92) ''alpha'' (fixed_pitch 12) (156, 163, 175) None,
               DrawText (380, snd scored + 124) ''beta'' (fixed_pitch 12) (156, 163, 175) None,
               DrawText (380, snd scored + 156) ''gamma'' (fixed_pitch 12) (156, 163, 175) None,
               DrawText (380, snd scored + 188) ''delta'' (fixed_pitch 12) (156, 163, 175) None,
               DrawText (380, snd scored + 220) ''epsilon'' (fixed_pitch 12) (156, 163, 175) None,
               DrawText (380, snd scored + 252) ''zeta'' (fixed_pitch 12) (156, 163, 175) None,
               DrawText (380, snd scored + 284) ''eta'' (fixed_pitch 12) (156, 163, 175) None,
               DrawText (380, snd scored + 316) ''th...'' (fixed_pitch 12) (156, 163, 175) None] @
              badge"
    unfolding rl by (simp add: sty)
  with g valid_long_review show ?thesis by blast
qed

section \<open>The platform badge: logo, fallback circle, label\<close>

text \<open>
  Claim C7 fails on the code. With the Backloggd logo file absent (\<open>Path.exists()\<close> is
  false) the badge is the label alone, starting at \<open>x\<close>: no circle is drawn and the
  32 pixel footprint and 10 pixel gutter are not reserved. Only when the file exists and
  opening it raises is the circle drawn, and then, as with the logo, the label starts at
  \<open>x + 42\<close>.
\<close>

theorem badge_without_logo_file:
  "ops (draw_platform_branding offline_env style canv BACKLOGGD ''u'' (x, y)) =
     ops canv @ [DrawText (x, y + 16) ''Backloggd @u'' (platform_font style)
                   (secondary_color style) (Some ''lm'')] \<and>
   ops (draw_platform_branding (offline_env\<lparr>path_exists := (\<lambda>p. True)\<rparr>) style canv BACKLOGGD ''u'' (x, y)) =
     ops canv @ [Ellipse (x, y) (x + 32, y + 32) (139, 92, 246),
                 DrawText (x + 42, y + 16) ''Backloggd @u'' (platform_font style)
                   (secondary_color style) (Some ''lm'')] \<and>
   ops (draw_platform_branding
          (offline_env\<lparr>path_exists := (\<lambda>p. True), image_open := (\<lambda>p. Some logo)\<rparr>)
          style canv BACKLOGGD ''u'' (x, y)) =
     ops canv @ [PasteLogo (logo\<lparr>im_width := 32, im_height := 32\<rparr>) (x, y),
                 DrawText (x + 42, y + 16) ''Backloggd @u'' (platform_font style)
                   (secondary_color style) (Some ''lm'')]"
  by (simp add: draw_platform_branding_def backloggd_def or_default_def offline_env_def draw_def
        Let_def)

text \<open>The same for both platforms and any user name, in any world without the logo files.\<close>

lemma badge_no_logo_file:
  assumes "pf \<noteq> NONE"
    and "path_exists e ''assets/logos/backloggd_logo.png'' = False"
    and "path_exists e ''assets/logos/letterboxd_logo.png'' = False"
  shows "ops (draw_platform_branding e style canv pf user (x, y)) =
     ops canv @ [DrawText (x, y + 16)
                   ((case pf of BACKLOGGD \<Rightarrow> ''Backloggd'' | LETTERBOXD \<Rightarrow> ''Letterboxd'' | NONE \<Rightarrow> [])
                      @ (if user \<noteq> [] then '' @'' @ user else []))
                   (platform_font style) (secondary_color style) (Some ''lm'')]"
  using assms
  by (cases pf)
     (simp_all add: draw_platform_branding_def backloggd_def letterboxd_def or_default_def draw_def
        Let_def)

section \<open>The cover slot: placeholder on failure\<close>















end
